theory Spec2Isabelle
  imports Complex_Main
begin

section \<open>The clause detector of \<open>app.py\<close>\<close>

text \<open>
  The development embeds \<open>perform_enhanced_pattern_analysis\<close> (\<open>app.py\<close>, lines 238-305)
  together with the parts of Python's \<open>re\<close> and \<open>str\<close> it calls. A text is a
  \<open>string\<close>: a list of characters with code points below 256, one list element per
  Python character, so \<open>length\<close> is Python's \<open>len\<close>.
\<close>

subsection \<open>Characters\<close>

text \<open>
  \<open>re.IGNORECASE\<close> compares the lower-case forms of pattern and text characters. Below
  code point 256 the cased upper-case characters are \<open>A-Z\<close> and \<open>0xC0-0xDE\<close> without
  \<open>0xD7\<close>; each lies 32 below its lower-case form.
\<close>

definition py_lower :: "char \<Rightarrow> char" where
  "py_lower c =
     (let n = (of_char c :: nat)
      in if (65 \<le> n \<and> n \<le> 90) \<or> (192 \<le> n \<and> n \<le> 222 \<and> n \<noteq> 215)
         then char_of (n + 32) else c)"

text \<open>\<open>str.isspace\<close> on one character, for code points below 256.\<close>

definition py_isspace :: "char \<Rightarrow> bool" where
  "py_isspace c =
     (let n = (of_char c :: nat)
      in (9 \<le> n \<and> n \<le> 13) \<or> (28 \<le> n \<and> n \<le> 32) \<or> n = 133 \<or> n = 160)"

subsection \<open>Strings: slicing and \<open>strip\<close>\<close>

text \<open>
  \<open>text[i:j]\<close> with Python's treatment of indices: a negative index counts from the
  end, and both indices are clipped to the bounds of the string.
\<close>

definition py_index :: "int \<Rightarrow> int \<Rightarrow> int" where
  "py_index n i = (if i < 0 then max 0 (i + n) else min i n)"

definition py_slice :: "string \<Rightarrow> int \<Rightarrow> int \<Rightarrow> string" where
  "py_slice s i j =
     (let n = int (length s); a = py_index n i; b = py_index n j
      in take (nat (b - a)) (drop (nat a) s))"

definition py_lstrip :: "string \<Rightarrow> string" where
  "py_lstrip s = dropWhile py_isspace s"

definition py_rstrip :: "string \<Rightarrow> string" where
  "py_rstrip s = rev (dropWhile py_isspace (rev s))"

definition py_strip :: "string \<Rightarrow> string" where
  "py_strip s = py_rstrip (py_lstrip s)"

subsection \<open>The regular expressions of the rule table\<close>

text \<open>
  The twenty patterns of the table use three constructs only: a literal character, \<open>.\<close>
  and \<open>.*\<close>. \<open>re_compile\<close> parses this fragment and rejects every other metacharacter,
  as a pattern that \<open>re\<close> cannot compile raises \<open>re.error\<close>.
\<close>

datatype re_item = Lit char | AnyChar | AnyStar

datatype py_error = ReError

definition re_special :: "char \<Rightarrow> bool" where
  "re_special c = (c = CHR 0x5C \<or> c \<in> set ''^$*+?{}[]|()'')"

fun re_compile :: "string \<Rightarrow> re_item list option" where
  "re_compile [] = Some []"
| "re_compile [c] =
     (if c = CHR ''.'' then Some [AnyChar]
      else if re_special c then None
      else Some [Lit c])"
| "re_compile (c # d # ds) =
     (if c = CHR ''.'' \<and> d = CHR ''*'' then map_option (Cons AnyStar) (re_compile ds)
      else if c = CHR ''.'' then map_option (Cons AnyChar) (re_compile (d # ds))
      else if re_special c then None
      else map_option (Cons (Lit c)) (re_compile (d # ds)))"

text \<open>
  The backtracking matcher, anchored at the head of the text, with the flags
  \<open>re.IGNORECASE | re.DOTALL\<close>: \<open>.\<close> matches every character, a newline too, and
  \<open>.*\<close> is greedy, so the longer repetition is tried first. The result is the length of
  the match the engine reports.
\<close>

fun match_here :: "re_item list \<Rightarrow> string \<Rightarrow> nat option" where
  "match_here [] s = Some 0"
| "match_here (Lit c # ps) [] = None"
| "match_here (Lit c # ps) (x # xs) =
     (if py_lower x = py_lower c then map_option Suc (match_here ps xs) else None)"
| "match_here (AnyChar # ps) [] = None"
| "match_here (AnyChar # ps) (x # xs) = map_option Suc (match_here ps xs)"
| "match_here (AnyStar # ps) [] = match_here ps []"
| "match_here (AnyStar # ps) (x # xs) =
     (case match_here (AnyStar # ps) xs of
        Some n \<Rightarrow> Some (Suc n)
      | None \<Rightarrow> match_here ps (x # xs))"

text \<open>
  The scan of \<open>re.finditer\<close>: \<open>off\<close> is the offset of the remaining text \<open>s\<close> in the
  whole text. The leftmost match is reported as the span \<open>(start, end)\<close> and the scan
  goes on at its end; after an empty match it moves on by one character.
\<close>

function scan :: "re_item list \<Rightarrow> nat \<Rightarrow> string \<Rightarrow> (nat \<times> nat) list" where
  "scan p off [] = (case match_here p [] of None \<Rightarrow> [] | Some n \<Rightarrow> [(off, off + n)])"
| "scan p off (x # xs) =
     (case match_here p (x # xs) of
        None \<Rightarrow> scan p (Suc off) xs
      | Some n \<Rightarrow> (off, off + n) # scan p (off + max n 1) (drop (max n 1) (x # xs)))"
  by pat_completeness auto
termination
  by (relation "measure (\<lambda>(p, off, s). length s)") auto

definition re_finditer :: "string \<Rightarrow> string \<Rightarrow> py_error + (nat \<times> nat) list" where
  "re_finditer pattern s =
     (case re_compile pattern of
        None \<Rightarrow> Inl ReError
      | Some p \<Rightarrow> Inr (scan p 0 s))"

subsection \<open>The rule table\<close>

type_synonym rule = "string \<times> real \<times> string"

definition pattern_table :: "(string \<times> rule list) list" where
  "pattern_table =
    [(''governance'',
       [(''shareholder.*vote.*accordance.*with.*instructions.*provided.*by.*president'', 0.95, ''high''),
        (''vote.*shares.*accordance.*president.*instructions'', 0.9, ''high''),
        (''governance.*compromise.*president.*instructions'', 0.85, ''high''),
        (''holder.*vote.*shares.*accordance.*instructions.*president'', 0.8, ''high'')]),
     (''drag_along'',
       [(''drag.along.*right.*ninety.five.*per.*cent'', 0.95, ''high''),
        (''95%.*holders.*shares.*offeror.*require.*sell'', 0.9, ''high''),
        (''offeror.*may.*require.*holders.*sell.*shares'', 0.85, ''high''),
        (''forced.*sale.*shares.*majority.*shareholders'', 0.8, ''high'')]),
     (''tag_along'',
       [(''tag.along.*right.*transferor.*shareholder'', 0.95, ''low''),
        (''holder.*sell.*shares.*same.*price.*terms'', 0.9, ''low''),
        (''shareholder.*transfer.*shares.*holder.*right.*sell'', 0.85, ''low''),
        (''protection.*minority.*shareholders.*sales'', 0.8, ''low'')]),
     (''priority_allocation'',
       [(''priority.*allocation.*sale.*price.*waterfall'', 0.95, ''medium''),
        (''liquidation.*preference.*distribution.*proceeds'', 0.9, ''medium''),
        (''sale.*proceeds.*allocated.*priority.*order'', 0.85, ''medium''),
        (''distribution.*waterfall.*priority.*shareholders'', 0.8, ''medium'')]),
     (''non_compete'',
       [(''non.compete.*restrictions.*remain.*applicable.*avoidance.*doubts'', 0.95, ''medium''),
        (''non.solicit.*provisions.*survive.*completion'', 0.9, ''medium''),
        (''restrictions.*continue.*apply.*after.*sale'', 0.85, ''medium''),
        (''competition.*restrictions.*remain.*effect'', 0.8, ''medium'')])]"

definition patterns :: "string \<rightharpoonup> rule list" where
  "patterns = map_of pattern_table"

subsection \<open>The analysis\<close>

record clause =
  clause_text :: string
  clause_context :: string
  clause_type :: string
  clause_confidence :: real
  clause_risk_level :: string
  clause_position :: int

record analysis_result =
  detected_clauses :: "clause list"
  analysis_method :: string
  success :: bool
  total_found :: nat

text \<open>The body of the innermost loop (lines 286-298) for one match with span \<open>(s, e)\<close>.\<close>

definition make_clause :: "string \<Rightarrow> string \<Rightarrow> real \<Rightarrow> string \<Rightarrow> nat \<times> nat \<Rightarrow> clause" where
  "make_clause text_in ctype confidence risk m =
     (let start = max 0 (int (fst m) - 50);
          end = min (int (length text_in)) (int (snd m) + 50);
          context = py_strip (py_slice text_in start end)
      in \<lparr>clause_text = py_slice text_in (int (fst m)) (int (snd m)),
          clause_context = context,
          clause_type = ctype,
          clause_confidence = confidence,
          clause_risk_level = risk,
          clause_position = int (fst m)\<rparr>)"

text \<open>The loop over the matches of one rule: each match is appended to the accumulator.\<close>

fun matches_loop ::
  "string \<Rightarrow> string \<Rightarrow> real \<Rightarrow> string \<Rightarrow> (nat \<times> nat) list \<Rightarrow> clause list \<Rightarrow> clause list" where
  "matches_loop text_in ctype confidence risk [] acc = acc"
| "matches_loop text_in ctype confidence risk (m # ms) acc =
     matches_loop text_in ctype confidence risk ms
       (acc @ [make_clause text_in ctype confidence risk m])"

text \<open>The loop over the rules of one category (line 283).\<close>

fun rules_loop :: "string \<Rightarrow> string \<Rightarrow> rule list \<Rightarrow> clause list \<Rightarrow> py_error + clause list" where
  "rules_loop text_in ctype [] acc = Inr acc"
| "rules_loop text_in ctype ((pattern, confidence, risk) # rs) acc =
     (case re_finditer pattern text_in of
        Inl e \<Rightarrow> Inl e
      | Inr ms \<Rightarrow> rules_loop text_in ctype rs (matches_loop text_in ctype confidence risk ms acc))"

text \<open>The loop over the requested categories (lines 281-282).\<close>

fun types_loop :: "string \<Rightarrow> string list \<Rightarrow> clause list \<Rightarrow> py_error + clause list" where
  "types_loop text_in [] acc = Inr acc"
| "types_loop text_in (ctype # cts) acc =
     (case patterns ctype of
        None \<Rightarrow> types_loop text_in cts acc
      | Some rs \<Rightarrow>
          (case rules_loop text_in ctype rs acc of
             Inl e \<Rightarrow> Inl e
           | Inr acc' \<Rightarrow> types_loop text_in cts acc'))"

definition perform_enhanced_pattern_analysis ::
  "string \<Rightarrow> string list \<Rightarrow> py_error + analysis_result" where
  "perform_enhanced_pattern_analysis text_in clause_types =
     (case types_loop text_in clause_types [] of
        Inl e \<Rightarrow> Inl e
      | Inr found \<Rightarrow>
          Inr \<lparr>detected_clauses = take 15 found,
               analysis_method = ''enhanced_pattern_matching'',
               success = True,
               total_found = length found\<rparr>)"

subsection \<open>The accumulated list, stated without the loops\<close>

text \<open>
  The matches of one rule, of one category and of a whole request, as maps over the
  spans that \<open>re.finditer\<close> yields. The loops above are compared with these.
\<close>

text \<open>The least number of characters a match of a compiled pattern spans.\<close>

fun min_len :: "re_item list \<Rightarrow> nat" where
  "min_len [] = 0"
| "min_len (AnyStar # ps) = min_len ps"
| "min_len (p # ps) = Suc (min_len ps)"

definition rule_spans :: "string \<Rightarrow> string \<Rightarrow> (nat \<times> nat) list" where
  "rule_spans pattern s = (case re_finditer pattern s of Inl e \<Rightarrow> [] | Inr ms \<Rightarrow> ms)"

definition rule_matches :: "string \<Rightarrow> string \<Rightarrow> rule \<Rightarrow> clause list" where
  "rule_matches text_in ctype r =
     (case r of (pattern, confidence, risk) \<Rightarrow>
        map (make_clause text_in ctype confidence risk) (rule_spans pattern text_in))"

definition category_matches :: "string \<Rightarrow> string \<Rightarrow> clause list" where
  "category_matches text_in ctype =
     (case patterns ctype of None \<Rightarrow> [] | Some rs \<Rightarrow> concat (map (rule_matches text_in ctype) rs))"

definition all_matches :: "string \<Rightarrow> string list \<Rightarrow> clause list" where
  "all_matches text_in clause_types = concat (map (category_matches text_in) clause_types)"

section \<open>The loops compute the accumulated list\<close>

lemma matches_loop_append:
  "matches_loop t ct c r ms acc = acc @ map (make_clause t ct c r) ms"
  by (induction ms arbitrary: acc) simp_all

lemma patterns_cases:
  assumes "patterns ct = Some rs"
  shows "(ct, rs) \<in> set pattern_table"
  using assms unfolding patterns_def by (rule map_of_SomeD)

lemma table_compiles:
  assumes "patterns ct = Some rs" and "(p, c, r) \<in> set rs"
  shows "\<exists>q. re_compile p = Some q \<and> 0 < min_len q"
proof -
  have "(ct, rs) \<in> set pattern_table" using assms(1) by (rule patterns_cases)
  with assms(2) show ?thesis
    unfolding pattern_table_def
    by (auto simp: re_special_def)
qed


lemma finditer_table:
  assumes "patterns ct = Some rs" and "(p, c, r) \<in> set rs"
  shows "\<exists>q. re_compile p = Some q \<and> 0 < min_len q \<and> re_finditer p t = Inr (scan q 0 t)
           \<and> rule_spans p t = scan q 0 t"
  using table_compiles [OF assms] by (auto simp: re_finditer_def rule_spans_def)

lemma rules_loop_append:
  assumes "\<forall>(p, c, r) \<in> set rs. re_compile p \<noteq> None"
  shows "rules_loop t ct rs acc = Inr (acc @ concat (map (rule_matches t ct) rs))"
  using assms
proof (induction rs arbitrary: acc)
  case Nil
  then show ?case by simp
next
  case (Cons x rs)
  obtain p c r where x: "x = (p, c, r)" by (cases x)
  from Cons.prems x obtain q where q: "re_compile p = Some q" by auto
  have rm: "rule_matches t ct x = map (make_clause t ct c r) (scan q 0 t)"
    by (simp add: x q rule_matches_def rule_spans_def re_finditer_def)
  have "rules_loop t ct (x # rs) acc =
          rules_loop t ct rs (acc @ map (make_clause t ct c r) (scan q 0 t))"
    by (simp add: x q re_finditer_def matches_loop_append)
  also have "\<dots> = Inr ((acc @ map (make_clause t ct c r) (scan q 0 t))
                        @ concat (map (rule_matches t ct) rs))"
    using Cons.prems by (intro Cons.IH) simp
  finally show ?case
    using rm by simp
qed

lemma category_loop:
  assumes "patterns ct = Some rs"
  shows "rules_loop t ct rs acc = Inr (acc @ category_matches t ct)"
proof -
  have "\<forall>(p, c, r) \<in> set rs. re_compile p \<noteq> None"
    using table_compiles [OF assms] by fastforce
  then show ?thesis
    by (simp add: rules_loop_append category_matches_def assms)
qed

lemma types_loop_append:
  "types_loop t cts acc = Inr (acc @ all_matches t cts)"
proof (induction cts arbitrary: acc)
  case Nil
  then show ?case by (simp add: all_matches_def)
next
  case (Cons ct cts)
  show ?case
  proof (cases "patterns ct")
    case None
    then show ?thesis
      by (simp add: Cons.IH all_matches_def category_matches_def)
  next
    case (Some rs)
    then show ?thesis
      by (simp add: category_loop Cons.IH all_matches_def)
  qed
qed

lemma perform_eq:
  "perform_enhanced_pattern_analysis t cts =
     Inr \<lparr>detected_clauses = take 15 (all_matches t cts),
          analysis_method = ''enhanced_pattern_matching'',
          success = True,
          total_found = length (all_matches t cts)\<rparr>"
  by (simp add: perform_enhanced_pattern_analysis_def types_loop_append)

lemma match_here_bounds:
  "match_here p s = Some n \<Longrightarrow> min_len p \<le> n \<and> n \<le> length s"
proof (induction p s arbitrary: n rule: match_here.induct)
  case (7 ps x xs)
  then show ?case by (fastforce split: option.splits)
qed (auto split: if_splits)

lemma scan_spans:
  "(a, b) \<in> set (scan p off s) \<Longrightarrow> off \<le> a \<and> a + min_len p \<le> b \<and> b \<le> off + length s"
proof (induction p off s rule: scan.induct)
  case (1 p off)
  then show ?case
    by (cases "match_here p []") (auto dest: match_here_bounds)
next
  case (2 p off x xs)
  show ?case
  proof (cases "match_here p (x # xs)")
    case None
    with 2 show ?thesis by auto
  next
    case (Some n)
    note mb = match_here_bounds [OF Some]
    from "2.prems" Some consider "(a, b) = (off, off + n)"
      | "(a, b) \<in> set (scan p (off + max n 1) (drop (max n 1) (x # xs)))" by auto
    then show ?thesis
    proof cases
      case 1
      with mb show ?thesis by auto
    next
      case 2
      from "2.IH"(2) [OF Some 2] mb show ?thesis by auto
    qed
  qed
qed

lemma scan_starts_ascending:
  "sorted_wrt (<) (map fst (scan p off s))"
proof (induction p off s rule: scan.induct)
  case (1 p off)
  then show ?case by (simp split: option.splits)
next
  case (2 p off x xs)
  show ?case
  proof (cases "match_here p (x # xs)")
    case None
    with 2 show ?thesis by simp
  next
    case (Some n)
    have "\<forall>m \<in> set (scan p (off + max n 1) (drop (max n 1) (x # xs))). off < fst m"
      using scan_spans [of _ _ p "off + max n 1" "drop (max n 1) (x # xs)"] by fastforce
    with "2.IH"(2) [OF Some] Some show ?thesis by simp
  qed
qed

lemma scan_empty_text: "0 < min_len p \<Longrightarrow> scan p off [] = []"
  by (cases "match_here p []") (auto dest: match_here_bounds)


section \<open>Slices and the fields of a clause\<close>

lemma py_slice_nat: "py_slice s (int a) (int b) = take (b - a) (drop a s)"
proof (cases "a \<le> length s")
  case True
  show ?thesis
  proof (cases "b \<le> length s")
    case True
    with \<open>a \<le> length s\<close> show ?thesis
      by (simp add: py_slice_def py_index_def Let_def min_def nat_diff_distrib')
  next
    case False
    with True have "py_slice s (int a) (int b) = drop a s"
      by (simp add: py_slice_def py_index_def Let_def min_def nat_diff_distrib')
    moreover from False have "take (b - a) (drop a s) = drop a s" by simp
    ultimately show ?thesis by simp
  qed
next
  case False
  then show ?thesis
    by (simp add: py_slice_def py_index_def Let_def min_def)
qed

lemma all_matches_origin:
  assumes "c \<in> set (all_matches t cts)"
  shows "\<exists>ct rs p conf risk m. ct \<in> set cts \<and> patterns ct = Some rs \<and> (p, conf, risk) \<in> set rs
           \<and> m \<in> set (rule_spans p t) \<and> c = make_clause t ct conf risk m"
proof -
  from assms obtain ct where ct: "ct \<in> set cts" "c \<in> set (category_matches t ct)"
    by (auto simp: all_matches_def)
  then obtain rs where rs: "patterns ct = Some rs"
    by (cases "patterns ct") (auto simp: category_matches_def)
  with ct obtain x where x: "x \<in> set rs" "c \<in> set (rule_matches t ct x)"
    by (auto simp: category_matches_def)
  obtain p conf risk where px: "x = (p, conf, risk)" by (cases x)
  with x(2) obtain m where "m \<in> set (rule_spans p t)" "c = make_clause t ct conf risk m"
    by (auto simp: rule_matches_def)
  with x(1) px ct(1) rs show ?thesis by blast
qed

lemma table_span_bounds:
  assumes "patterns ct = Some rs" and "(p, conf, risk) \<in> set rs"
    and "(s, e) \<in> set (rule_spans p t)"
  shows "s < e \<and> e \<le> length t"
proof -
  from finditer_table [OF assms(1,2), of t] obtain q
    where q: "0 < min_len q" "rule_spans p t = scan q 0 t" by blast
  with assms(3) scan_spans [of s e q 0 t] show ?thesis by auto
qed

lemma make_clause_fields:
  "clause_text (make_clause t ct conf risk (s, e)) = take (e - s) (drop s t)"
  "clause_context (make_clause t ct conf risk (s, e)) =
     py_strip (take (min (length t) (e + 50) - (s - 50)) (drop (s - 50) t))"
  "clause_type (make_clause t ct conf risk (s, e)) = ct"
  "clause_confidence (make_clause t ct conf risk (s, e)) = conf"
  "clause_risk_level (make_clause t ct conf risk (s, e)) = risk"
  "clause_position (make_clause t ct conf risk (s, e)) = int s"
proof -
  have a: "max 0 (int s - 50) = int (s - 50)" by linarith
  have b: "min (int (length t)) (int e + 50) = int (min (length t) (e + 50))" by linarith
  show "clause_context (make_clause t ct conf risk (s, e)) =
     py_strip (take (min (length t) (e + 50) - (s - 50)) (drop (s - 50) t))"
    unfolding make_clause_def Let_def fst_conv snd_conv a b py_slice_nat by simp
qed (simp_all add: make_clause_def py_slice_nat)

section \<open>Order, categories and the empty text\<close>

lemma rule_matches_positions:
  "map clause_position (rule_matches t ct (p, conf, risk)) = map (int \<circ> fst) (rule_spans p t)"
  by (simp add: rule_matches_def make_clause_def Let_def)

lemma rule_spans_ascending: "sorted_wrt (<) (map fst (rule_spans p t))"
  by (cases "re_compile p") (simp_all add: rule_spans_def re_finditer_def scan_starts_ascending)

lemma rule_positions_ascending:
  "sorted_wrt (<) (map clause_position (rule_matches t ct rl))"
proof -
  obtain p conf risk where rl: "rl = (p, conf, risk)" by (cases rl)
  have "sorted_wrt (<) (map int (map fst (rule_spans p t)))"
    using rule_spans_ascending [of p t] by (simp add: sorted_wrt_map)
  then show ?thesis
    by (simp add: rl rule_matches_positions)
qed

lemma patterns_keys:
  "patterns ct \<noteq> None \<longleftrightarrow>
     ct \<in> {''governance'', ''drag_along'', ''tag_along'', ''priority_allocation'', ''non_compete''}"
  by (simp add: patterns_def pattern_table_def)

lemma all_matches_append:
  "all_matches t (xs @ ys) = all_matches t xs @ all_matches t ys"
  by (simp add: all_matches_def)

lemma all_matches_Cons:
  "all_matches t (ct # cts) = category_matches t ct @ all_matches t cts"
  by (simp add: all_matches_def)

lemma category_matches_empty_text: "category_matches [] ct = []"
proof (cases "patterns ct")
  case None
  then show ?thesis by (simp add: category_matches_def)
next
  case (Some rs)
  have "rule_matches [] ct x = []" if "x \<in> set rs" for x
  proof -
    obtain p conf risk where x: "x = (p, conf, risk)" by (cases x)
    from finditer_table [OF Some, of p conf risk "[]"] that x obtain q
      where "0 < min_len q" "rule_spans p [] = scan q 0 []" by blast
    with scan_empty_text [of q 0] have "rule_spans p [] = []"
      by (simp del: scan.simps)
    then show ?thesis
      by (simp add: x rule_matches_def)
  qed
  then show ?thesis
    by (simp add: category_matches_def Some)
qed

lemma rule_matches_type: "c \<in> set (rule_matches t ct rl) \<Longrightarrow> clause_type c = ct"
  by (cases rl) (auto simp: rule_matches_def make_clause_def Let_def)

lemma category_matches_type: "c \<in> set (category_matches t ct) \<Longrightarrow> clause_type c = ct"
  by (cases "patterns ct") (auto simp: category_matches_def dest: rule_matches_type)

lemma filter_category_same:
  "filter (\<lambda>c. clause_type c = ct) (category_matches t ct) = category_matches t ct"
  by (rule filter_True) (simp add: category_matches_type)

lemma filter_category_other:
  "ct' \<noteq> ct \<Longrightarrow> filter (\<lambda>c. clause_type c = ct) (category_matches t ct') = []"
  by (auto simp: filter_empty_conv dest: category_matches_type)

lemma count_of_type:
  "length (filter (\<lambda>c. clause_type c = ct) (all_matches t cts)) =
     count_list cts ct * length (category_matches t ct)"
proof (induction cts)
  case Nil
  then show ?case by (simp add: all_matches_def)
next
  case (Cons a cts)
  then show ?case
    by (cases "a = ct") (simp_all add: all_matches_Cons filter_category_same filter_category_other)
qed

lemma all_matches_replicate:
  "all_matches t (replicate k ct) = concat (replicate k (category_matches t ct))"
  by (induction k) (simp_all add: all_matches_Cons all_matches_def)

section \<open>A match that exists is found\<close>

lemma match_here_literals:
  "match_here ps s \<noteq> None \<Longrightarrow> match_here (map Lit w @ ps) (w @ s) \<noteq> None"
  by (induction w) auto

lemma match_here_star_skips:
  "match_here ps s \<noteq> None \<Longrightarrow> match_here (AnyStar # ps) (u @ s) \<noteq> None"
proof (induction u)
  case Nil
  then show ?case
    by (cases s) (auto split: option.splits)
next
  case (Cons x u)
  then show ?case
    by (auto split: option.splits)
qed

lemma match_here_word_gap:
  "match_here ps s \<noteq> None \<Longrightarrow> match_here (map Lit w @ AnyStar # ps) (w @ u @ s) \<noteq> None"
  by (intro match_here_literals match_here_star_skips)

lemma scan_finds:
  "match_here p (drop i s) \<noteq> None \<Longrightarrow> i \<le> length s \<Longrightarrow> scan p off s \<noteq> []"
proof (induction p off s arbitrary: i rule: scan.induct)
  case (1 p off)
  then show ?case by auto
next
  case (2 p off x xs)
  show ?case
  proof (cases "match_here p (x # xs)")
    case None
    with "2.prems" obtain j where j: "i = Suc j"
      by (cases i) auto
    with "2.prems" have "match_here p (drop j xs) \<noteq> None" "j \<le> length xs"
      by simp_all
    from "2.IH"(1) [OF None this] None show ?thesis
      by simp
  next
    case (Some n)
    then show ?thesis by simp
  qed
qed

lemma governance_first_rule:
  "re_compile ''shareholder.*vote.*accordance.*with.*instructions.*provided.*by.*president'' =
     Some (map Lit ''shareholder'' @ AnyStar # map Lit ''vote'' @ AnyStar #
           map Lit ''accordance'' @ AnyStar # map Lit ''with'' @ AnyStar #
           map Lit ''instructions'' @ AnyStar # map Lit ''provided'' @ AnyStar #
           map Lit ''by'' @ AnyStar # map Lit ''president'')"
  by (simp add: re_special_def)

lemma sentence_matches:
  "match_here
     (map Lit ''shareholder'' @ AnyStar # map Lit ''vote'' @ AnyStar #
      map Lit ''accordance'' @ AnyStar # map Lit ''with'' @ AnyStar #
      map Lit ''instructions'' @ AnyStar # map Lit ''provided'' @ AnyStar #
      map Lit ''by'' @ AnyStar # map Lit ''president'')
     (''shareholder'' @ '' shall '' @ ''vote'' @ '' shares in '' @ ''accordance'' @ '' '' @
      ''with'' @ '' '' @ ''instructions'' @ '' '' @ ''provided'' @ '' '' @ ''by'' @ '' the '' @
      ''president'' @ post) \<noteq> None"
proof -
  have "match_here (map Lit ''president'' @ []) (''president'' @ post) \<noteq> None"
    by (rule match_here_literals) simp
  then have "match_here (map Lit ''president'') (''president'' @ post) \<noteq> None"
    by (simp only: append_Nil2 not_False_eq_True)
  then have "match_here
       (map Lit ''by'' @ AnyStar #
        map Lit ''president'')
       (''by'' @ '' the '' @ ''president'' @ post) \<noteq> None"
    by (rule match_here_word_gap)
  then have "match_here
       (map Lit ''provided'' @ AnyStar #
        map Lit ''by'' @ AnyStar #
        map Lit ''president'')
       (''provided'' @ '' '' @ ''by'' @ '' the '' @ ''president'' @ post) \<noteq> None"
    by (rule match_here_word_gap)
  then have "match_here
       (map Lit ''instructions'' @ AnyStar #
        map Lit ''provided'' @ AnyStar #
        map Lit ''by'' @ AnyStar #
        map Lit ''president'')
       (''instructions'' @ '' '' @ ''provided'' @ '' '' @ ''by'' @ '' the '' @ ''president'' @ post) \<noteq> None"
    by (rule match_here_word_gap)
  then have "match_here
       (map Lit ''with'' @ AnyStar #
        map Lit ''instructions'' @ AnyStar #
        map Lit ''provided'' @ AnyStar #
        map Lit ''by'' @ AnyStar #
        map Lit ''president'')
       (''with'' @ '' '' @ ''instructions'' @ '' '' @ ''provided'' @ '' '' @ ''by'' @ '' the '' @ ''president'' @ post) \<noteq> None"
    by (rule match_here_word_gap)
  then have "match_here
       (map Lit ''accordance'' @ AnyStar #
        map Lit ''with'' @ AnyStar #
        map Lit ''instructions'' @ AnyStar #
        map Lit ''provided'' @ AnyStar #
        map Lit ''by'' @ AnyStar #
        map Lit ''president'')
       (''accordance'' @ '' '' @ ''with'' @ '' '' @ ''instructions'' @ '' '' @ ''provided'' @ '' '' @ ''by'' @ '' the '' @ ''president'' @ post) \<noteq> None"
    by (rule match_here_word_gap)
  then have "match_here
       (map Lit ''vote'' @ AnyStar #
        map Lit ''accordance'' @ AnyStar #
        map Lit ''with'' @ AnyStar #
        map Lit ''instructions'' @ AnyStar #
        map Lit ''provided'' @ AnyStar #
        map Lit ''by'' @ AnyStar #
        map Lit ''president'')
       (''vote'' @ '' shares in '' @ ''accordance'' @ '' '' @ ''with'' @ '' '' @ ''instructions'' @ '' '' @ ''provided'' @ '' '' @ ''by'' @ '' the '' @ ''president'' @ post) \<noteq> None"
    by (rule match_here_word_gap)
  then have "match_here
       (map Lit ''shareholder'' @ AnyStar #
        map Lit ''vote'' @ AnyStar #
        map Lit ''accordance'' @ AnyStar #
        map Lit ''with'' @ AnyStar #
        map Lit ''instructions'' @ AnyStar #
        map Lit ''provided'' @ AnyStar #
        map Lit ''by'' @ AnyStar #
        map Lit ''president'')
       (''shareholder'' @ '' shall '' @ ''vote'' @ '' shares in '' @ ''accordance'' @ '' '' @ ''with'' @ '' '' @ ''instructions'' @ '' '' @ ''provided'' @ '' '' @ ''by'' @ '' the '' @ ''president'' @ post) \<noteq> None"
    by (rule match_here_word_gap)
  then show ?thesis .
qed


lemma governance_first_rule_fires:
  "\<exists>m ms. rule_spans ''shareholder.*vote.*accordance.*with.*instructions.*provided.*by.*president''
            (pre @ ''The shareholder shall vote shares in accordance with instructions provided by the president'' @ post) = m # ms"
proof -
  let ?t = "pre @ ''The shareholder shall vote shares in accordance with instructions provided by the president'' @ post"
  let ?q = "map Lit ''shareholder'' @ AnyStar #
         map Lit ''vote'' @ AnyStar #
         map Lit ''accordance'' @ AnyStar #
         map Lit ''with'' @ AnyStar #
         map Lit ''instructions'' @ AnyStar #
         map Lit ''provided'' @ AnyStar #
         map Lit ''by'' @ AnyStar #
         map Lit ''president''"
  have suffix: "drop (length pre + 4) ?t =
          ''shareholder'' @ '' shall '' @ ''vote'' @ '' shares in '' @ ''accordance'' @ '' '' @ ''with'' @ '' '' @ ''instructions'' @ '' '' @ ''provided'' @ '' '' @ ''by'' @ '' the '' @ ''president'' @ post"
    by simp
  have "match_here ?q (drop (length pre + 4) ?t) \<noteq> None"
    unfolding suffix by (rule sentence_matches)
  then have "scan ?q 0 ?t \<noteq> []"
    by (rule scan_finds) simp
  moreover have "rule_spans ''shareholder.*vote.*accordance.*with.*instructions.*provided.*by.*president'' ?t = scan ?q 0 ?t"
    by (simp only: rule_spans_def re_finditer_def governance_first_rule option.case sum.case)
  ultimately show ?thesis
    by (simp only: neq_Nil_conv)
qed

lemma first_rule_heads_result:
  assumes "patterns ct = Some ((p, conf, risk) # rs)" and "rule_spans p t = m # ms"
  shows "\<exists>rest. all_matches t [ct] = make_clause t ct conf risk m # rest"
  by (simp add: all_matches_def category_matches_def rule_matches_def assms)

lemma governance_rules:
  "patterns ''governance'' =
     Some [(''shareholder.*vote.*accordance.*with.*instructions.*provided.*by.*president'', 0.95, ''high''),
           (''vote.*shares.*accordance.*president.*instructions'', 0.9, ''high''),
           (''governance.*compromise.*president.*instructions'', 0.85, ''high''),
           (''holder.*vote.*shares.*accordance.*instructions.*president'', 0.8, ''high'')]"
  by (simp add: patterns_def pattern_table_def)

section \<open>Properties of the detector\<close>

text \<open>
  C1. For every text and every list of requested categories the call returns a result
  whose list of detected clauses is the first 15 entries of the accumulated list, so it
  has at most 15 entries, and whose \<open>total_found\<close> is the length of the whole
  accumulated list, before the cut. Hence \<open>total_found\<close> is never below the length of
  the returned list.
\<close>

theorem cap_and_total_found:
  "\<exists>r. perform_enhanced_pattern_analysis t cts = Inr r
     \<and> detected_clauses r = take 15 (all_matches t cts)
     \<and> length (detected_clauses r) \<le> 15
     \<and> total_found r = length (all_matches t cts)
     \<and> length (detected_clauses r) \<le> total_found r"
  by (simp add: perform_eq)

theorem cap_and_total_found_witness:
  "category_matches ''Restrictions continue to apply after the sale.'' ''non_compete'' =
     [\<lparr>clause_text = ''Restrictions continue to apply after the sale'',
            clause_context = ''Restrictions continue to apply after the sale.'',
            clause_type = ''non_compete'', clause_confidence = 0.85,
            clause_risk_level = ''medium'', clause_position = 0\<rparr>]
   \<and> (\<exists>r. perform_enhanced_pattern_analysis ''Restrictions continue to apply after the sale.'' (replicate 16 ''non_compete'') = Inr r
        \<and> length (detected_clauses r) = 15
        \<and> total_found r = 16)"
proof -
  let ?t = "''Restrictions continue to apply after the sale.''"
  let ?c = "\<lparr>clause_text = ''Restrictions continue to apply after the sale'',
            clause_context = ''Restrictions continue to apply after the sale.'',
            clause_type = ''non_compete'', clause_confidence = 0.85,
            clause_risk_level = ''medium'', clause_position = 0\<rparr>"
  have once: "category_matches ?t ''non_compete'' = [?c]"
    by code_simp
  have "length (all_matches ?t (replicate 16 ''non_compete'')) = 16"
    by (simp add: all_matches_replicate once length_concat sum_list_replicate)
  with cap_and_total_found [of ?t "replicate 16 ''non_compete''"] once show ?thesis
    by auto
qed

text \<open>
  C2. Every returned clause comes from a match of a rule of the table with a span
  \<open>[s, e)\<close> in the text, \<open>s < e \<le> L\<close> for the length \<open>L\<close> of the text; its
  \<open>position\<close> is \<open>s\<close>, its \<open>text\<close> the characters from \<open>s\<close> to \<open>e\<close>, and its
  \<open>context\<close> is the stripped substring that starts 50 characters before \<open>s\<close>, or at the
  head of the text when \<open>s < 50\<close>, and ends 50 characters after \<open>e\<close>, or at the end of
  the text: \<open>text[max(0, s - 50) : min(L, e + 50)].strip()\<close>.
\<close>

theorem context_window:
  assumes "perform_enhanced_pattern_analysis t cts = Inr r"
    and "c \<in> set (detected_clauses r)"
  shows "\<exists>ct rs p conf risk s e.
           patterns ct = Some rs \<and> (p, conf, risk) \<in> set rs \<and> (s, e) \<in> set (rule_spans p t)
         \<and> s < e \<and> e \<le> length t
         \<and> clause_position c = int s
         \<and> clause_text c = take (e - s) (drop s t)
         \<and> clause_context c =
             py_strip (take (min (length t) (e + 50) - (s - 50)) (drop (s - 50) t))"
proof -
  from assms have "c \<in> set (all_matches t cts)"
    by (auto simp: perform_eq dest: in_set_takeD)
  from all_matches_origin [OF this] obtain ct rs p conf risk m
    where o: "patterns ct = Some rs" "(p, conf, risk) \<in> set rs" "m \<in> set (rule_spans p t)"
      "c = make_clause t ct conf risk m" by blast
  obtain s e where m: "m = (s, e)" by (cases m)
  from table_span_bounds [OF o(1,2), of s e t] o(3) m have "s < e \<and> e \<le> length t" by simp
  with o m show ?thesis
    by (auto simp: make_clause_fields intro!: exI)
qed

theorem context_window_witness:
  "perform_enhanced_pattern_analysis
     ''Preamble                                                Tag-Along right of transferor shareholder                                                       end'' [''tag_along'']
   = Inr \<lparr>detected_clauses =
            [\<lparr>clause_text = ''Tag-Along right of transferor shareholder'',
              clause_context = ''le                                                Tag-Along right of transferor shareholder'',
              clause_type = ''tag_along'', clause_confidence = 0.95,
              clause_risk_level = ''low'', clause_position = 56\<rparr>],
          analysis_method = ''enhanced_pattern_matching'', success = True, total_found = 1\<rparr>
   \<and> (\<exists>ct rs p conf risk s e.
         patterns ct = Some rs \<and> (p, conf, risk) \<in> set rs
       \<and> (s, e) \<in> set (rule_spans p ''Preamble                                                Tag-Along right of transferor shareholder                                                       end'')
       \<and> s < e \<and> e \<le> 155 \<and> int s = 56
       \<and> ''Tag-Along right of transferor shareholder'' =
           take (e - s) (drop s ''Preamble                                                Tag-Along right of transferor shareholder                                                       end'')
       \<and> ''le                                                Tag-Along right of transferor shareholder'' =
           py_strip (take (min 155 (e + 50) - (s - 50)) (drop (s - 50) ''Preamble                                                Tag-Along right of transferor shareholder                                                       end'')))"
proof -
  let ?t = "''Preamble                                                Tag-Along right of transferor shareholder                                                       end''"
  let ?c = "\<lparr>clause_text = ''Tag-Along right of transferor shareholder'',
              clause_context = ''le                                                Tag-Along right of transferor shareholder'',
              clause_type = ''tag_along'', clause_confidence = 0.95,
              clause_risk_level = ''low'', clause_position = 56\<rparr>"
  let ?r = "\<lparr>detected_clauses = [?c],
          analysis_method = ''enhanced_pattern_matching'', success = True, total_found = 1\<rparr>"
  have run: "perform_enhanced_pattern_analysis ?t [''tag_along''] = Inr ?r"
    by code_simp
  have mem: "?c \<in> set (detected_clauses ?r)"
    by simp
  have len: "length ?t = 155"
    by simp
  from context_window [OF run mem] run show ?thesis
    unfolding len by simp
qed

text \<open>
  C3. The returned list is the first 15 entries of the concatenation, over the requested
  categories in the order given, of the matches of each category; the matches of a
  category are the concatenation, over its rules in the order of the table, of the
  matches of each rule; and the matches of one rule come with strictly ascending
  positions, left to right in the text. Nothing is sorted across rules or categories.
\<close>

theorem accumulation_order:
  "\<exists>r. perform_enhanced_pattern_analysis t cts = Inr r
     \<and> detected_clauses r = take 15 (concat (map (category_matches t) cts))
     \<and> (\<forall>ct. category_matches t ct =
            (case map_of pattern_table ct of
               None \<Rightarrow> []
             | Some rs \<Rightarrow> concat (map (rule_matches t ct) rs)))
     \<and> (\<forall>ct rl. sorted_wrt (<) (map clause_position (rule_matches t ct rl)))"
  by (simp add: perform_eq all_matches_def category_matches_def patterns_def
      rule_positions_ascending)

theorem accumulation_order_witness:
  "perform_enhanced_pattern_analysis ''drag-along right: ninety-five per cent; tag-along right of transferor shareholder'' [''tag_along'', ''drag_along''] =
     Inr \<lparr>detected_clauses =
           [\<lparr>clause_text = ''tag-along right of transferor shareholder'',
              clause_context = ''drag-along right: ninety-five per cent; tag-along right of transferor shareholder'',
              clause_type = ''tag_along'', clause_confidence = 0.95,
              clause_risk_level = ''low'', clause_position = 40\<rparr>,
            \<lparr>clause_text = ''drag-along right: ninety-five per cent'',
              clause_context = ''drag-along right: ninety-five per cent; tag-along right of transferor shareholder'',
              clause_type = ''drag_along'', clause_confidence = 0.95,
              clause_risk_level = ''high'', clause_position = 0\<rparr>],
         analysis_method = ''enhanced_pattern_matching'', success = True,
         total_found = 2\<rparr>
   \<and> take 15 (concat (map (category_matches ''drag-along right: ninety-five per cent; tag-along right of transferor shareholder'') [''tag_along'', ''drag_along''])) =
       [\<lparr>clause_text = ''tag-along right of transferor shareholder'',
              clause_context = ''drag-along right: ninety-five per cent; tag-along right of transferor shareholder'',
              clause_type = ''tag_along'', clause_confidence = 0.95,
              clause_risk_level = ''low'', clause_position = 40\<rparr>,
        \<lparr>clause_text = ''drag-along right: ninety-five per cent'',
              clause_context = ''drag-along right: ninety-five per cent; tag-along right of transferor shareholder'',
              clause_type = ''drag_along'', clause_confidence = 0.95,
              clause_risk_level = ''high'', clause_position = 0\<rparr>]"
proof -
  let ?t = "''drag-along right: ninety-five per cent; tag-along right of transferor shareholder''"
  let ?r = "\<lparr>detected_clauses =
           [\<lparr>clause_text = ''tag-along right of transferor shareholder'',
              clause_context = ''drag-along right: ninety-five per cent; tag-along right of transferor shareholder'',
              clause_type = ''tag_along'', clause_confidence = 0.95,
              clause_risk_level = ''low'', clause_position = 40\<rparr>,
            \<lparr>clause_text = ''drag-along right: ninety-five per cent'',
              clause_context = ''drag-along right: ninety-five per cent; tag-along right of transferor shareholder'',
              clause_type = ''drag_along'', clause_confidence = 0.95,
              clause_risk_level = ''high'', clause_position = 0\<rparr>],
         analysis_method = ''enhanced_pattern_matching'', success = True,
         total_found = 2\<rparr>"
  have run: "perform_enhanced_pattern_analysis ?t [''tag_along'', ''drag_along''] = Inr ?r"
    by code_simp
  from accumulation_order [of ?t "[''tag_along'', ''drag_along'']"] obtain r
    where r: "perform_enhanced_pattern_analysis ?t [''tag_along'', ''drag_along''] = Inr r"
      "detected_clauses r = take 15 (concat (map (category_matches ?t) [''tag_along'', ''drag_along'']))"
    by blast
  from r(1) have "r = ?r"
    unfolding run by simp
  with r(2) run show ?thesis
    by simp
qed

text \<open>
  C4. The position of every returned clause is an offset into the text:
  \<open>0 \<le> position < len(text)\<close>.
\<close>

theorem position_in_text:
  assumes "perform_enhanced_pattern_analysis t cts = Inr r"
    and "c \<in> set (detected_clauses r)"
  shows "0 \<le> clause_position c \<and> clause_position c < int (length t)"
proof -
  from assms have "c \<in> set (all_matches t cts)"
    by (auto simp: perform_eq dest: in_set_takeD)
  from all_matches_origin [OF this] obtain ct rs p conf risk m
    where o: "patterns ct = Some rs" "(p, conf, risk) \<in> set rs" "m \<in> set (rule_spans p t)"
      "c = make_clause t ct conf risk m" by blast
  obtain s e where m: "m = (s, e)" by (cases m)
  from table_span_bounds [OF o(1,2), of s e t] o(3) m have "s < length t" by simp
  with o(4) m show ?thesis
    by (simp add: make_clause_fields)
qed

theorem position_in_text_witness:
  "perform_enhanced_pattern_analysis ''A forced sale of shares by majority shareholders.'' [''drag_along''] =
     Inr \<lparr>detected_clauses =
           [\<lparr>clause_text = ''forced sale of shares by majority shareholders'',
              clause_context = ''A forced sale of shares by majority shareholders.'',
              clause_type = ''drag_along'', clause_confidence = 0.8,
              clause_risk_level = ''high'', clause_position = 2\<rparr>],
         analysis_method = ''enhanced_pattern_matching'', success = True,
         total_found = 1\<rparr>
   \<and> 0 \<le> clause_position
         \<lparr>clause_text = ''forced sale of shares by majority shareholders'',
              clause_context = ''A forced sale of shares by majority shareholders.'',
              clause_type = ''drag_along'', clause_confidence = 0.8,
              clause_risk_level = ''high'', clause_position = 2\<rparr>
   \<and> clause_position
         \<lparr>clause_text = ''forced sale of shares by majority shareholders'',
              clause_context = ''A forced sale of shares by majority shareholders.'',
              clause_type = ''drag_along'', clause_confidence = 0.8,
              clause_risk_level = ''high'', clause_position = 2\<rparr>
       < int (length ''A forced sale of shares by majority shareholders.'')"
proof -
  let ?t = "''A forced sale of shares by majority shareholders.''"
  let ?c = "\<lparr>clause_text = ''forced sale of shares by majority shareholders'',
              clause_context = ''A forced sale of shares by majority shareholders.'',
              clause_type = ''drag_along'', clause_confidence = 0.8,
              clause_risk_level = ''high'', clause_position = 2\<rparr>"
  let ?r = "\<lparr>detected_clauses =
           [\<lparr>clause_text = ''forced sale of shares by majority shareholders'',
              clause_context = ''A forced sale of shares by majority shareholders.'',
              clause_type = ''drag_along'', clause_confidence = 0.8,
              clause_risk_level = ''high'', clause_position = 2\<rparr>],
         analysis_method = ''enhanced_pattern_matching'', success = True,
         total_found = 1\<rparr>"
  have run: "perform_enhanced_pattern_analysis ?t [''drag_along''] = Inr ?r"
    by code_simp
  have mem: "?c \<in> set (detected_clauses ?r)"
    by simp
  from position_in_text [OF run mem] run show ?thesis
    by simp
qed

text \<open>
  C5. For every text that contains the sentence "The shareholder shall vote shares in
  accordance with instructions provided by the president", whatever comes before and
  after it, the request of the single category \<open>governance\<close> returns at least one clause of
  type \<open>governance\<close> with confidence 0.95 and risk level \<open>high\<close>.
\<close>

theorem governance_scenario:
  "\<exists>r. perform_enhanced_pattern_analysis
          (pre @ ''The shareholder shall vote shares in accordance with instructions provided by the president'' @ post)
          [''governance''] = Inr r
     \<and> (\<exists>c \<in> set (detected_clauses r).
           clause_type c = ''governance'' \<and> clause_confidence c = 0.95
         \<and> clause_risk_level c = ''high'')"
proof -
  let ?t = "pre @ ''The shareholder shall vote shares in accordance with instructions provided by the president'' @ post"
  from governance_first_rule_fires [of pre post] obtain m ms
    where spans: "rule_spans ''shareholder.*vote.*accordance.*with.*instructions.*provided.*by.*president'' ?t = m # ms"
    by blast
  obtain s e where m: "m = (s, e)" by (cases m)
  let ?c = "make_clause ?t ''governance'' 0.95 ''high'' (s, e)"
  from first_rule_heads_result [OF governance_rules spans]
  obtain rest where "all_matches ?t [''governance''] = ?c # rest"
    unfolding m by blast
  then have "?c \<in> set (take 15 (all_matches ?t [''governance'']))"
    by simp
  moreover have "clause_type ?c = ''governance''" "clause_confidence ?c = 0.95"
    "clause_risk_level ?c = ''high''"
    by (simp_all only: make_clause_fields)
  ultimately show ?thesis
    unfolding perform_eq by (intro exI conjI bexI) (rule refl, simp_all)
qed

theorem governance_scenario_witness:
  "perform_enhanced_pattern_analysis
     ''1. The shareholder shall vote shares in accordance with instructions provided by the president.''
     [''governance''] =
     Inr \<lparr>detected_clauses =
          [\<lparr>clause_text = ''shareholder shall vote shares in accordance with instructions provided by the president'',
             clause_context = ''1. The shareholder shall vote shares in accordance with instructions provided by the president.'',
             clause_type = ''governance'', clause_confidence = 0.95,
             clause_risk_level = ''high'', clause_position = 7\<rparr>,
           \<lparr>clause_text = ''holder shall vote shares in accordance with instructions provided by the president'',
             clause_context = ''1. The shareholder shall vote shares in accordance with instructions provided by the president.'',
             clause_type = ''governance'', clause_confidence = 0.8,
             clause_risk_level = ''high'', clause_position = 12\<rparr>],
          analysis_method = ''enhanced_pattern_matching'', success = True, total_found = 2\<rparr>
   \<and> (\<exists>r. perform_enhanced_pattern_analysis
            ''1. The shareholder shall vote shares in accordance with instructions provided by the president.''
            [''governance''] = Inr r
        \<and> (\<exists>c \<in> set (detected_clauses r).
              clause_type c = ''governance'' \<and> clause_confidence c = 0.95
            \<and> clause_risk_level c = ''high''))"
proof -
  have parts: "''1. The shareholder shall vote shares in accordance with instructions provided by the president.'' =
        ''1. '' @ ''The shareholder shall vote shares in accordance with instructions provided by the president'' @ ''.''"
    by simp
  have run: "perform_enhanced_pattern_analysis
     ''1. The shareholder shall vote shares in accordance with instructions provided by the president.''
     [''governance''] =
     Inr \<lparr>detected_clauses =
          [\<lparr>clause_text = ''shareholder shall vote shares in accordance with instructions provided by the president'',
             clause_context = ''1. The shareholder shall vote shares in accordance with instructions provided by the president.'',
             clause_type = ''governance'', clause_confidence = 0.95,
             clause_risk_level = ''high'', clause_position = 7\<rparr>,
           \<lparr>clause_text = ''holder shall vote shares in accordance with instructions provided by the president'',
             clause_context = ''1. The shareholder shall vote shares in accordance with instructions provided by the president.'',
             clause_type = ''governance'', clause_confidence = 0.8,
             clause_risk_level = ''high'', clause_position = 12\<rparr>],
          analysis_method = ''enhanced_pattern_matching'', success = True, total_found = 2\<rparr>"
    by code_simp
  have found: "\<exists>r. perform_enhanced_pattern_analysis
            ''1. The shareholder shall vote shares in accordance with instructions provided by the president.''
            [''governance''] = Inr r
        \<and> (\<exists>c \<in> set (detected_clauses r).
              clause_type c = ''governance'' \<and> clause_confidence c = 0.95
            \<and> clause_risk_level c = ''high'')"
    unfolding parts by (rule governance_scenario)
  from run found show ?thesis
    by (rule conjI)
qed

text \<open>
  C6. A requested category that is not one of the five keys of the table is skipped by
  the loop: the result with it is the result without it, the call returns a result with
  \<open>success\<close> true and raises nothing, and a request of that category alone, like the
  empty request, yields the empty list with \<open>total_found = 0\<close>.
\<close>

theorem unknown_category_ignored:
  assumes "ct \<notin> {''governance'', ''drag_along'', ''tag_along'', ''priority_allocation'',
                  ''non_compete''}"
  shows "types_loop t (ct # cts) acc = types_loop t cts acc
       \<and> perform_enhanced_pattern_analysis t (xs @ ct # ys) =
           perform_enhanced_pattern_analysis t (xs @ ys)
       \<and> (\<exists>r. perform_enhanced_pattern_analysis t (xs @ ct # ys) = Inr r \<and> success r)
       \<and> perform_enhanced_pattern_analysis t [ct] =
           Inr \<lparr>detected_clauses = [], analysis_method = ''enhanced_pattern_matching'',
                success = True, total_found = 0\<rparr>
       \<and> perform_enhanced_pattern_analysis t [] =
           Inr \<lparr>detected_clauses = [], analysis_method = ''enhanced_pattern_matching'',
                success = True, total_found = 0\<rparr>"
proof -
  from assms have "\<not> patterns ct \<noteq> None"
    by (simp only: patterns_keys not_False_eq_True)
  then have none: "patterns ct = None"
    by simp
  then have cm: "category_matches t ct = []"
    by (simp add: category_matches_def)
  have "types_loop t (ct # cts) acc = types_loop t cts acc"
    using none by simp
  moreover have "all_matches t (xs @ ct # ys) = all_matches t (xs @ ys)"
    by (simp add: all_matches_append all_matches_Cons cm)
  moreover have "all_matches t [ct] = []" "all_matches t [] = []"
    by (simp_all add: all_matches_def cm)
  ultimately show ?thesis
    by (simp add: perform_eq)
qed

theorem unknown_category_ignored_witness:
  "''warranty'' \<notin> {''governance'', ''drag_along'', ''tag_along'', ''priority_allocation'', ''non_compete''}
   \<and> perform_enhanced_pattern_analysis ''Liquidation preference: distribution of proceeds'' [''priority_allocation'', ''warranty''] =
       perform_enhanced_pattern_analysis ''Liquidation preference: distribution of proceeds'' [''priority_allocation'']
   \<and> perform_enhanced_pattern_analysis ''Liquidation preference: distribution of proceeds'' [''priority_allocation''] =
       Inr \<lparr>detected_clauses =
           [\<lparr>clause_text = ''Liquidation preference: distribution of proceeds'',
              clause_context = ''Liquidation preference: distribution of proceeds'',
              clause_type = ''priority_allocation'', clause_confidence = 0.9,
              clause_risk_level = ''medium'', clause_position = 0\<rparr>],
         analysis_method = ''enhanced_pattern_matching'', success = True,
         total_found = 1\<rparr>
   \<and> perform_enhanced_pattern_analysis ''Liquidation preference: distribution of proceeds'' [''warranty''] =
       Inr \<lparr>detected_clauses = [], analysis_method = ''enhanced_pattern_matching'',
            success = True, total_found = 0\<rparr>"
proof -
  let ?t = "''Liquidation preference: distribution of proceeds''"
  have unknown: "''warranty'' \<notin> {''governance'', ''drag_along'', ''tag_along'', ''priority_allocation'', ''non_compete''}"
    by simp
  have run: "perform_enhanced_pattern_analysis ?t [''priority_allocation''] =
       Inr \<lparr>detected_clauses =
           [\<lparr>clause_text = ''Liquidation preference: distribution of proceeds'',
              clause_context = ''Liquidation preference: distribution of proceeds'',
              clause_type = ''priority_allocation'', clause_confidence = 0.9,
              clause_risk_level = ''medium'', clause_position = 0\<rparr>],
         analysis_method = ''enhanced_pattern_matching'', success = True,
         total_found = 1\<rparr>"
    by code_simp
  from unknown_category_ignored [OF unknown, where t = ?t and xs = "[''priority_allocation'']"
      and ys = "[]"] unknown run
  show ?thesis
    by simp
qed

text \<open>
  C7. On the empty text every request, so every non-empty one, yields the empty list,
  \<open>total_found = 0\<close> and \<open>success\<close> true.
\<close>

theorem empty_text_no_matches:
  "perform_enhanced_pattern_analysis [] cts =
     Inr \<lparr>detected_clauses = [], analysis_method = ''enhanced_pattern_matching'',
          success = True, total_found = 0\<rparr>"
  by (simp add: perform_eq all_matches_def category_matches_empty_text)

text \<open>
  C9. The requested categories are a sequence: the accumulated list holds the matches of
  a category once for each occurrence of its name in the request, so a request of \<open>k\<close>
  copies of one name accumulates \<open>k\<close> copies of that category's matches, and the result
  is the first 15 of them with \<open>total_found\<close> counting all of them.
\<close>

theorem repeated_category_repeats_matches:
  "\<exists>found once.
       types_loop t cts [] = Inr found
     \<and> types_loop t [ct] [] = Inr once
     \<and> length (filter (\<lambda>c. clause_type c = ct) found) = count_list cts ct * length once
     \<and> types_loop t (replicate k ct) [] = Inr (concat (replicate k once))
     \<and> perform_enhanced_pattern_analysis t (replicate k ct) =
         Inr \<lparr>detected_clauses = take 15 (concat (replicate k once)),
              analysis_method = ''enhanced_pattern_matching'',
              success = True,
              total_found = k * length once\<rparr>"
proof -
  have "all_matches t [ct] = category_matches t ct"
    by (simp add: all_matches_def)
  moreover have "length (concat (replicate k (category_matches t ct)))
      = k * length (category_matches t ct)"
    by (induction k) simp_all
  ultimately show ?thesis
    by (simp add: types_loop_append perform_eq count_of_type all_matches_replicate)
qed

theorem repeated_category_repeats_matches_witness:
  "types_loop ''competition restrictions remain in effect'' [''non_compete''] [] =
     Inr [\<lparr>clause_text = ''competition restrictions remain in effect'',
            clause_context = ''competition restrictions remain in effect'',
            clause_type = ''non_compete'', clause_confidence = 0.8,
            clause_risk_level = ''medium'', clause_position = 0\<rparr>]
   \<and> perform_enhanced_pattern_analysis ''competition restrictions remain in effect'' (replicate 16 ''non_compete'') =
     Inr \<lparr>detected_clauses =
          take 15 (concat (replicate 16
            [\<lparr>clause_text = ''competition restrictions remain in effect'',
            clause_context = ''competition restrictions remain in effect'',
            clause_type = ''non_compete'', clause_confidence = 0.8,
            clause_risk_level = ''medium'', clause_position = 0\<rparr>])),
          analysis_method = ''enhanced_pattern_matching'', success = True,
          total_found = 16\<rparr>"
proof -
  let ?t = "''competition restrictions remain in effect''"
  let ?c = "\<lparr>clause_text = ''competition restrictions remain in effect'',
            clause_context = ''competition restrictions remain in effect'',
            clause_type = ''non_compete'', clause_confidence = 0.8,
            clause_risk_level = ''medium'', clause_position = 0\<rparr>"
  have once: "types_loop ?t [''non_compete''] [] = Inr [?c]"
    by code_simp
  from repeated_category_repeats_matches [of ?t "[]" "''non_compete''" 16] obtain ms
    where ms: "types_loop ?t [''non_compete''] [] = Inr ms"
      "perform_enhanced_pattern_analysis ?t (replicate 16 ''non_compete'') =
         Inr \<lparr>detected_clauses = take 15 (concat (replicate 16 ms)),
              analysis_method = ''enhanced_pattern_matching'', success = True,
              total_found = 16 * length ms\<rparr>"
    by blast
  from ms(1) have "ms = [?c]"
    unfolding once by simp
  with ms(2) once show ?thesis
    by simp
qed

text \<open>
  C10. The \<open>text\<close> field of every returned clause is the slice of the input that
  starts at its position and has its length, \<open>input[position : position + len(text)]\<close>:
  the characters are those of the input, whatever their case. The field is never empty.
\<close>

theorem text_is_verbatim_slice:
  assumes "perform_enhanced_pattern_analysis t cts = Inr r"
    and "c \<in> set (detected_clauses r)"
  shows "clause_text c =
           py_slice t (clause_position c) (clause_position c + int (length (clause_text c)))
         \<and> clause_text c = take (length (clause_text c)) (drop (nat (clause_position c)) t)
         \<and> 0 < length (clause_text c)"
proof -
  from assms have "c \<in> set (all_matches t cts)"
    by (auto simp: perform_eq dest: in_set_takeD)
  from all_matches_origin [OF this] obtain ct rs p conf risk m
    where o: "patterns ct = Some rs" "(p, conf, risk) \<in> set rs" "m \<in> set (rule_spans p t)"
      "c = make_clause t ct conf risk m" by blast
  obtain s e where m: "m = (s, e)" by (cases m)
  from table_span_bounds [OF o(1,2), of s e t] o(3) m have b: "s < e" "e \<le> length t" by simp_all
  have ctext: "clause_text c = take (e - s) (drop s t)" and pos: "clause_position c = int s"
    using o(4) m by (simp_all add: make_clause_fields)
  from b have len: "length (clause_text c) = e - s"
    by (simp add: ctext)
  have "int s + int (e - s) = int (s + (e - s))" by simp
  then have "py_slice t (clause_position c) (clause_position c + int (length (clause_text c)))
      = take (e - s) (drop s t)"
    unfolding pos len by (simp only: py_slice_nat) simp
  with ctext len pos b show ?thesis by simp
qed

theorem text_is_verbatim_slice_witness:
  "perform_enhanced_pattern_analysis ''NON-SOLICIT PROVISIONS SURVIVE COMPLETION.'' [''non_compete''] =
     Inr \<lparr>detected_clauses =
           [\<lparr>clause_text = ''NON-SOLICIT PROVISIONS SURVIVE COMPLETION'',
              clause_context = ''NON-SOLICIT PROVISIONS SURVIVE COMPLETION.'',
              clause_type = ''non_compete'', clause_confidence = 0.9,
              clause_risk_level = ''medium'', clause_position = 0\<rparr>],
         analysis_method = ''enhanced_pattern_matching'', success = True,
         total_found = 1\<rparr>
   \<and> ''NON-SOLICIT PROVISIONS SURVIVE COMPLETION'' = py_slice ''NON-SOLICIT PROVISIONS SURVIVE COMPLETION.'' 0 (0 + int (length ''NON-SOLICIT PROVISIONS SURVIVE COMPLETION''))
   \<and> ''NON-SOLICIT PROVISIONS SURVIVE COMPLETION'' = take (length ''NON-SOLICIT PROVISIONS SURVIVE COMPLETION'') (drop (nat 0) ''NON-SOLICIT PROVISIONS SURVIVE COMPLETION.'')
   \<and> 0 < length ''NON-SOLICIT PROVISIONS SURVIVE COMPLETION''"
proof -
  let ?t = "''NON-SOLICIT PROVISIONS SURVIVE COMPLETION.''"
  let ?c = "\<lparr>clause_text = ''NON-SOLICIT PROVISIONS SURVIVE COMPLETION'',
              clause_context = ''NON-SOLICIT PROVISIONS SURVIVE COMPLETION.'',
              clause_type = ''non_compete'', clause_confidence = 0.9,
              clause_risk_level = ''medium'', clause_position = 0\<rparr>"
  let ?r = "\<lparr>detected_clauses =
           [\<lparr>clause_text = ''NON-SOLICIT PROVISIONS SURVIVE COMPLETION'',
              clause_context = ''NON-SOLICIT PROVISIONS SURVIVE COMPLETION.'',
              clause_type = ''non_compete'', clause_confidence = 0.9,
              clause_risk_level = ''medium'', clause_position = 0\<rparr>],
         analysis_method = ''enhanced_pattern_matching'', success = True,
         total_found = 1\<rparr>"
  have run: "perform_enhanced_pattern_analysis ?t [''non_compete''] = Inr ?r"
    by code_simp
  have mem: "?c \<in> set (detected_clauses ?r)"
    by simp
  have sel: "clause_text ?c = ''NON-SOLICIT PROVISIONS SURVIVE COMPLETION''" "clause_position ?c = 0"
    by simp_all
  from run text_is_verbatim_slice [OF run mem, unfolded sel] show ?thesis
    by (rule conjI)
qed

end
